theory Spec2Isabelle
  imports Main
begin

section \<open>Values of the program\<close>

text \<open>
  The parser of \<^verbatim>\<open>app.py\<close> reads \<^verbatim>\<open>chat_data\<close>, a list of lines. A line is a
  Python \<^verbatim>\<open>bytes\<close> object (what \<^verbatim>\<open>uploaded_file.readlines()\<close> returns) or a Python
  \<^verbatim>\<open>str\<close>. A \<^verbatim>\<open>str\<close> is a sequence of Unicode code points, modelled as a list of
  naturals; a \<^verbatim>\<open>bytes\<close> object is a sequence of 8-bit values, modelled as a list of
  \<^typ>\<open>char\<close> (an Isabelle character is one byte).
\<close>

type_synonym str = "nat list"

datatype pyval = Str str | Bytes string

datatype error = TypeError

text \<open>An ASCII literal of the source as a \<^verbatim>\<open>str\<close>.\<close>

definition py_str :: "string \<Rightarrow> str" where
  "py_str s = map of_char s"

text \<open>
  One entry of \<^verbatim>\<open>messages\<close>: the list \<^verbatim>\<open>[date, time, sender, message]\<close>; the
  message is index 3.
\<close>

record msg =
  date :: str
  time :: str
  sender :: str
  message :: str

section \<open>Library functions the parser calls\<close>

subsection \<open>Character classes\<close>

text \<open>
  \<^verbatim>\<open>str.strip()\<close> and \<^verbatim>\<open>\s\<close> in a \<^verbatim>\<open>str\<close> pattern use the Unicode whitespace
  test of \<^verbatim>\<open>str.isspace\<close>; \<^verbatim>\<open>bytes.strip()\<close> removes ASCII whitespace only.
\<close>

definition py_isspace :: "nat \<Rightarrow> bool" where
  "py_isspace c =
     ((0x09 \<le> c \<and> c \<le> 0x0D) \<or> (0x1C \<le> c \<and> c \<le> 0x20) \<or> c = 0x85 \<or> c = 0xA0
      \<or> c = 0x1680 \<or> (0x2000 \<le> c \<and> c \<le> 0x200A) \<or> c = 0x2028 \<or> c = 0x2029
      \<or> c = 0x202F \<or> c = 0x205F \<or> c = 0x3000)"

definition bytes_isspace :: "char \<Rightarrow> bool" where
  "bytes_isspace b = (of_char b \<in> set [9, 10, 11, 12, 13, 32 :: nat])"

text \<open>
  \<^verbatim>\<open>\d\<close> in a \<^verbatim>\<open>str\<close> pattern matches every Unicode decimal digit (category Nd),
  not only \<^verbatim>\<open>0-9\<close>. The ranges are those of Unicode 14.0.
\<close>

definition decimal_ranges :: "(nat \<times> nat) list" where
  "decimal_ranges =
     [(0x30, 0x39), (0x660, 0x669), (0x6F0, 0x6F9), (0x7C0, 0x7C9), (0x966, 0x96F),
      (0x9E6, 0x9EF), (0xA66, 0xA6F), (0xAE6, 0xAEF), (0xB66, 0xB6F), (0xBE6, 0xBEF),
      (0xC66, 0xC6F), (0xCE6, 0xCEF), (0xD66, 0xD6F), (0xDE6, 0xDEF), (0xE50, 0xE59),
      (0xED0, 0xED9), (0xF20, 0xF29), (0x1040, 0x1049), (0x1090, 0x1099), (0x17E0, 0x17E9),
      (0x1810, 0x1819), (0x1946, 0x194F), (0x19D0, 0x19D9), (0x1A80, 0x1A89),
      (0x1A90, 0x1A99), (0x1B50, 0x1B59), (0x1BB0, 0x1BB9), (0x1C40, 0x1C49),
      (0x1C50, 0x1C59), (0xA620, 0xA629), (0xA8D0, 0xA8D9), (0xA900, 0xA909),
      (0xA9D0, 0xA9D9), (0xA9F0, 0xA9F9), (0xAA50, 0xAA59), (0xABF0, 0xABF9),
      (0xFF10, 0xFF19), (0x104A0, 0x104A9), (0x10D30, 0x10D39), (0x11066, 0x1106F),
      (0x110F0, 0x110F9), (0x11136, 0x1113F), (0x111D0, 0x111D9), (0x112F0, 0x112F9),
      (0x11450, 0x11459), (0x114D0, 0x114D9), (0x11650, 0x11659), (0x116C0, 0x116C9),
      (0x11730, 0x11739), (0x118E0, 0x118E9), (0x11950, 0x11959), (0x11C50, 0x11C59),
      (0x11D50, 0x11D59), (0x11DA0, 0x11DA9), (0x16A60, 0x16A69), (0x16AC0, 0x16AC9),
      (0x16B50, 0x16B59), (0x1D7CE, 0x1D7FF), (0x1E140, 0x1E149), (0x1E2F0, 0x1E2F9),
      (0x1E950, 0x1E959), (0x1FBF0, 0x1FBF9)]"

definition py_isdecimal :: "nat \<Rightarrow> bool" where
  "py_isdecimal c = list_ex (\<lambda>(lo, hi). lo \<le> c \<and> c \<le> hi) decimal_ranges"

subsection \<open>\<^verbatim>\<open>strip\<close>\<close>

definition strip :: "str \<Rightarrow> str" where
  "strip s = rev (dropWhile py_isspace (rev (dropWhile py_isspace s)))"

definition bytes_strip :: "string \<Rightarrow> string" where
  "bytes_strip b = rev (dropWhile bytes_isspace (rev (dropWhile bytes_isspace b)))"

subsection \<open>\<^verbatim>\<open>bytes.decode("utf-8")\<close>\<close>

text \<open>
  The strict UTF-8 decoder: \<^const>\<open>None\<close> stands for \<^verbatim>\<open>UnicodeDecodeError\<close>. It
  refuses stray continuation bytes, truncated sequences, overlong forms, surrogates and
  code points above \<^verbatim>\<open>U+10FFFF\<close>.
\<close>

definition is_cont :: "nat \<Rightarrow> bool" where
  "is_cont b = (0x80 \<le> b \<and> b \<le> 0xBF)"

fun utf8 :: "nat list \<Rightarrow> str option" where
  "utf8 [] = Some []"
| "utf8 (b0 # bs) =
     (if b0 < 0x80 then map_option ((#) b0) (utf8 bs)
      else if b0 < 0xC2 then None
      else if b0 < 0xE0 then
        (case bs of
           b1 # r \<Rightarrow>
             if is_cont b1
             then map_option ((#) ((b0 - 0xC0) * 64 + (b1 - 0x80))) (utf8 r)
             else None
         | _ \<Rightarrow> None)
      else if b0 < 0xF0 then
        (case bs of
           b1 # b2 # r \<Rightarrow>
             if (if b0 = 0xE0 then 0xA0 \<le> b1 \<and> b1 \<le> 0xBF
                 else if b0 = 0xED then 0x80 \<le> b1 \<and> b1 \<le> 0x9F
                 else is_cont b1) \<and> is_cont b2
             then map_option
                    ((#) ((b0 - 0xE0) * 4096 + (b1 - 0x80) * 64 + (b2 - 0x80))) (utf8 r)
             else None
         | _ \<Rightarrow> None)
      else if b0 < 0xF5 then
        (case bs of
           b1 # b2 # b3 # r \<Rightarrow>
             if (if b0 = 0xF0 then 0x90 \<le> b1 \<and> b1 \<le> 0xBF
                 else if b0 = 0xF4 then 0x80 \<le> b1 \<and> b1 \<le> 0x8F
                 else is_cont b1) \<and> is_cont b2 \<and> is_cont b3
             then map_option
                    ((#) ((b0 - 0xF0) * 262144 + (b1 - 0x80) * 4096 + (b2 - 0x80) * 64
                          + (b3 - 0x80))) (utf8 r)
             else None
         | _ \<Rightarrow> None)
      else None)"

definition decode_utf8 :: "string \<Rightarrow> str option" where
  "decode_utf8 b = utf8 (map of_char b)"

subsection \<open>The regular-expression matcher\<close>

text \<open>
  \<^verbatim>\<open>re\<close> is a backtracking matcher. The pattern of the program is a sequence of items:
  anchors, group parentheses, single characters of a class, and greedy repetitions
  \<^verbatim>\<open>{lo,hi}\<close> of a character class (\<^verbatim>\<open>*\<close> is \<^verbatim>\<open>{0,}\<close>, \<^verbatim>\<open>+\<close> is \<^verbatim>\<open>{1,}\<close>,
  \<^verbatim>\<open>?\<close> is \<^verbatim>\<open>{0,1}\<close>). Groups are not nested.
\<close>

datatype atom =
    Bol
  | Eol
  | GroupOpen
  | GroupClose
  | One "nat \<Rightarrow> bool"
  | Rep "nat \<Rightarrow> bool" nat "nat option"

text \<open>
  The matcher state: the position in the subject, the text of the groups already closed,
  and the text consumed so far by the group that is open, if one is.
\<close>

type_synonym mstate = "nat \<times> str list \<times> str option"

fun advance :: "mstate \<Rightarrow> str \<Rightarrow> mstate" where
  "advance (i, closed, cur) x = (i + length x, closed, map_option (\<lambda>b. b @ x) cur)"

fun open_group :: "mstate \<Rightarrow> mstate" where
  "open_group (i, closed, cur) = (i, closed, Some [])"

fun close_group :: "mstate \<Rightarrow> mstate" where
  "close_group (i, closed, cur) =
     (case cur of None \<Rightarrow> (i, closed, None) | Some b \<Rightarrow> (i, closed @ [b], None))"

text \<open>The longest run a greedy repetition can take at the head of the remaining text.\<close>

definition run_len :: "(nat \<Rightarrow> bool) \<Rightarrow> nat option \<Rightarrow> str \<Rightarrow> nat" where
  "run_len cls hi rest =
     (let n = length (takeWhile cls rest)
      in case hi of None \<Rightarrow> n | Some h \<Rightarrow> min h n)"

text \<open>
  Greedy backtracking: the continuation is tried with the longest count first, then with
  one character less, down to the lower bound; the first success is the result.
\<close>

fun backtrack :: "(nat \<Rightarrow> 'a option) \<Rightarrow> nat \<Rightarrow> nat \<Rightarrow> 'a option" where
  "backtrack k lo n =
     (case k n of
        Some r \<Rightarrow> Some r
      | None \<Rightarrow> if lo < n then backtrack k lo (n - 1) else None)"

declare backtrack.simps [simp del]

fun sre_match :: "atom list \<Rightarrow> str \<Rightarrow> mstate \<Rightarrow> str list option" where
  "sre_match [] rest st = Some (fst (snd st))"
| "sre_match (Bol # p) rest st = (if fst st = 0 then sre_match p rest st else None)"
| "sre_match (Eol # p) rest st =
     (if rest = [] \<or> rest = [10] then sre_match p rest st else None)"
| "sre_match (GroupOpen # p) rest st = sre_match p rest (open_group st)"
| "sre_match (GroupClose # p) rest st = sre_match p rest (close_group st)"
| "sre_match (One cls # p) rest st =
     (case rest of
        [] \<Rightarrow> None
      | c # rest' \<Rightarrow> if cls c then sre_match p rest' (advance st [c]) else None)"
| "sre_match (Rep cls lo hi # p) rest st =
     (let n = run_len cls hi rest
      in if n < lo then None
         else backtrack (\<lambda>k. sre_match p (drop k rest) (advance st (take k rest))) lo n)"

section \<open>The parser of \<^verbatim>\<open>app.py\<close>\<close>

text \<open>
  \<^verbatim>\<open>pattern = re.compile(r"^(\d{1,2}/\d{1,2}/\d{2,4}),\s*(\d{1,2}:\d{2}\s?[ap]m)\s*-\s*([^:]+):\s*(.*)$")\<close>
  with no flags: \<^verbatim>\<open>.\<close> matches every character but the newline, \<^verbatim>\<open>$\<close> matches at
  the end and before a final newline, and letters are matched case-sensitively.
\<close>

definition lit :: "char \<Rightarrow> nat \<Rightarrow> bool" where
  "lit ch c = (c = of_char ch)"

definition ap :: "nat \<Rightarrow> bool" where
  "ap c = (c = of_char CHR ''a'' \<or> c = of_char CHR ''p'')"

definition not_colon :: "nat \<Rightarrow> bool" where
  "not_colon c = (c \<noteq> of_char CHR '':'')"

definition dot :: "nat \<Rightarrow> bool" where
  "dot c = (c \<noteq> 10)"

definition pattern :: "atom list" where
  "pattern =
     [Bol,
      GroupOpen,
        Rep py_isdecimal 1 (Some 2), One (lit CHR ''/''),
        Rep py_isdecimal 1 (Some 2), One (lit CHR ''/''),
        Rep py_isdecimal 2 (Some 4),
      GroupClose,
      One (lit CHR '',''), Rep py_isspace 0 None,
      GroupOpen,
        Rep py_isdecimal 1 (Some 2), One (lit CHR '':''),
        Rep py_isdecimal 2 (Some 2),
        Rep py_isspace 0 (Some 1), One ap, One (lit CHR ''m''),
      GroupClose,
      Rep py_isspace 0 None, One (lit CHR ''-''), Rep py_isspace 0 None,
      GroupOpen, Rep not_colon 1 None, GroupClose,
      One (lit CHR '':''), Rep py_isspace 0 None,
      GroupOpen, Rep dot 0 None, GroupClose,
      Eol]"

text \<open>\<^verbatim>\<open>pattern.match(line)\<close> on a \<^verbatim>\<open>str\<close>, and \<^verbatim>\<open>match.groups()\<close> as a record.\<close>

definition header_match :: "str \<Rightarrow> msg option" where
  "header_match line =
     (case sre_match pattern line (0, [], None) of
        Some [d, t, s, m] \<Rightarrow> Some \<lparr>date = d, time = t, sender = s, message = m\<rparr>
      | _ \<Rightarrow> None)"

text \<open>
  \<^verbatim>\<open>try: line = line.decode("utf-8").strip()\<close>
  \<^verbatim>\<open>except: line = line.strip()\<close>

  A \<^verbatim>\<open>str\<close> has no \<^verbatim>\<open>decode\<close>: the \<^verbatim>\<open>AttributeError\<close> is caught and the line is
  stripped. A \<^verbatim>\<open>bytes\<close> line that does not decode stays \<^verbatim>\<open>bytes\<close>, stripped of ASCII
  whitespace.
\<close>

fun clean_line :: "pyval \<Rightarrow> pyval" where
  "clean_line (Str s) = Str (strip s)"
| "clean_line (Bytes b) =
     (case decode_utf8 b of
        Some s \<Rightarrow> Str (strip s)
      | None \<Rightarrow> Bytes (bytes_strip b))"

text \<open>
  One iteration of \<^verbatim>\<open>for line in chat_data\<close>. \<^verbatim>\<open>pattern.match\<close> of a \<^verbatim>\<open>str\<close>
  pattern on a \<^verbatim>\<open>bytes\<close> object raises \<^verbatim>\<open>TypeError\<close>, which nothing catches.
  \<^verbatim>\<open>messages[-1][3] += " " + line.strip()\<close> rewrites the last entry in place.
\<close>

fun loop_body :: "msg list \<Rightarrow> pyval \<Rightarrow> error + msg list" where
  "loop_body messages line0 =
     (case clean_line line0 of
        Bytes b \<Rightarrow> Inl TypeError
      | Str line \<Rightarrow>
          (case header_match line of
             Some m \<Rightarrow> Inr (messages @ [m])
           | None \<Rightarrow>
               if messages \<noteq> []
               then Inr (butlast messages @
                      [(last messages)\<lparr>message :=
                          message (last messages) @ py_str '' '' @ strip line\<rparr>])
               else Inr messages))"

fun parse_loop :: "msg list \<Rightarrow> pyval list \<Rightarrow> error + msg list" where
  "parse_loop messages [] = Inr messages"
| "parse_loop messages (line # chat_data) =
     (case loop_body messages line of
        Inl e \<Rightarrow> Inl e
      | Inr messages' \<Rightarrow> parse_loop messages' chat_data)"

definition parse_messages :: "pyval list \<Rightarrow> error + msg list" where
  "parse_messages chat_data = parse_loop [] chat_data"

subsection \<open>Predicates of the statements\<close>

text \<open>
  Where \<^verbatim>\<open>(.*)$\<close> can succeed: the rest of the subject has no newline, or only a final
  one.
\<close>

definition line_end :: "str \<Rightarrow> bool" where
  "line_end z = (dropWhile dot z = [] \<or> dropWhile dot z = [10])"

text \<open>
  A text that \<^verbatim>\<open>strip\<close> leaves as it is: empty, or with no whitespace at either end.
\<close>

definition trimmed :: "str \<Rightarrow> bool" where
  "trimmed x = (x = [] \<or> (\<not> py_isspace (hd x) \<and> \<not> py_isspace (last x)))"

subsection \<open>The post-pass on the data frame\<close>

text \<open>
  \<^verbatim>\<open>df = pd.DataFrame(messages, columns=["date", "time", "sender", "message"])\<close>
  \<^verbatim>\<open>df["date"] = pd.to_datetime(df["date"], errors="coerce", dayfirst=True)\<close>
  \<^verbatim>\<open>df.dropna(subset=["date"], inplace=True)\<close>

  \<^verbatim>\<open>pd.to_datetime\<close> belongs to pandas, not to the program: it is a parameter, a function
  from the column of date texts to the column of converted dates, where \<^const>\<open>None\<close> is
  \<^verbatim>\<open>NaT\<close> (what \<^verbatim>\<open>errors="coerce"\<close> puts in place of a text that does not convert).
\<close>

record 'd df_row =
  df_date :: "'d option"
  df_time :: str
  df_sender :: str
  df_message :: str

definition assign_dates :: "(str list \<Rightarrow> 'd option list) \<Rightarrow> msg list \<Rightarrow> 'd df_row list" where
  "assign_dates to_datetime messages =
     map (\<lambda>(d, m). \<lparr>df_date = d, df_time = time m, df_sender = sender m,
                        df_message = message m\<rparr>)
       (zip (to_datetime (map date messages)) messages)"

definition dropna :: "'d df_row list \<Rightarrow> 'd df_row list" where
  "dropna df = filter (\<lambda>r. df_date r \<noteq> None) df"

definition normalize_dates :: "(str list \<Rightarrow> 'd option list) \<Rightarrow> msg list \<Rightarrow> 'd df_row list" where
  "normalize_dates to_datetime messages = dropna (assign_dates to_datetime messages)"

section \<open>Evaluation\<close>

lemmas class_defs =
  py_isdecimal_def decimal_ranges_def py_isspace_def lit_def ap_def not_colon_def dot_def

lemmas eval_defs =
  header_match_def pattern_def py_str_def run_len_def backtrack.simps strip_def class_defs

section \<open>Backtracking\<close>

lemma backtrack_hit: "k n = Some r \<Longrightarrow> backtrack k lo n = Some r"
  by (subst backtrack.simps) simp

lemma backtrack_SomeD:
  "backtrack k lo n = Some r \<Longrightarrow> lo \<le> n \<Longrightarrow>
   \<exists>j. lo \<le> j \<and> j \<le> n \<and> k j = Some r \<and> (\<forall>i. j < i \<and> i \<le> n \<longrightarrow> k i = None)"
proof (induction k lo n rule: backtrack.induct)
  case (1 k lo n)
  show ?case
  proof (cases "k n")
    case (Some a)
    from "1.prems"(1) have "a = r" by (subst (asm) backtrack.simps) (simp add: Some)
    with Some "1.prems"(2) show ?thesis by auto
  next
    case None
    from "1.prems"(1) have "(if lo < n then backtrack k lo (n - 1) else None) = Some r"
      by (subst (asm) backtrack.simps) (simp add: None)
    then have lt: "lo < n" and rec: "backtrack k lo (n - 1) = Some r"
      by (simp_all split: if_splits)
    from lt have "lo \<le> n - 1" by simp
    from "1.IH"[OF None lt rec this] obtain j where
      j: "lo \<le> j" "j \<le> n - 1" "k j = Some r" "\<forall>i. j < i \<and> i \<le> n - 1 \<longrightarrow> k i = None"
      by blast
    have "\<forall>i. j < i \<and> i \<le> n \<longrightarrow> k i = None"
    proof (intro allI impI)
      fix i assume "j < i \<and> i \<le> n"
      then have "i \<le> n - 1 \<or> i = n" by arith
      with j(4) None \<open>j < i \<and> i \<le> n\<close> show "k i = None" by auto
    qed
    with j show ?thesis by (intro exI[of _ j]) auto
  qed
qed

lemma backtrack_None:
  "(\<And>j. j \<le> n \<Longrightarrow> k j = None) \<Longrightarrow> backtrack k lo n = None"
proof (induction k lo n rule: backtrack.induct)
  case (1 k lo n)
  have "k n = None" using "1.prems" by simp
  moreover have "lo < n \<Longrightarrow> backtrack k lo (n - 1) = None"
    using "1.IH"[OF \<open>k n = None\<close>] "1.prems" by simp
  ultimately show ?case by (subst backtrack.simps) simp
qed

section \<open>What a successful match says about the subject\<close>

lemma run_len_le: "run_len cls hi rest \<le> length (takeWhile cls rest)"
  by (simp add: run_len_def Let_def split: option.splits)

lemma run_len_hi: "run_len cls (Some h) rest \<le> h"
  by (simp add: run_len_def Let_def)

lemma take_run_all:
  "k \<le> length (takeWhile cls rest) \<Longrightarrow> list_all cls (take k rest)"
proof (induction rest arbitrary: k)
  case Nil
  then show ?case by simp
next
  case (Cons c rest)
  then show ?case by (cases k) (auto split: if_splits)
qed

lemma sre_match_RepD:
  assumes "sre_match (Rep cls lo hi # p) rest st = Some r"
  shows "\<exists>x y. rest = x @ y \<and> list_all cls x \<and> lo \<le> length x
           \<and> (case hi of None \<Rightarrow> True | Some h \<Rightarrow> length x \<le> h)
           \<and> sre_match p y (advance st x) = Some r"
proof -
  let ?n = "run_len cls hi rest"
  from assms have lo: "lo \<le> ?n"
    and bt: "backtrack (\<lambda>k. sre_match p (drop k rest) (advance st (take k rest))) lo ?n = Some r"
    by (simp_all add: Let_def split: if_splits)
  from backtrack_SomeD[OF bt lo] obtain j where
    j: "lo \<le> j" "j \<le> ?n" "sre_match p (drop j rest) (advance st (take j rest)) = Some r"
    by blast
  from j(2) have jl: "j \<le> length (takeWhile cls rest)"
    using run_len_le[of cls hi rest] by simp
  then have jr: "j \<le> length rest"
    using length_takeWhile_le[of cls rest] by simp
  have "rest = take j rest @ drop j rest" by simp
  moreover have "list_all cls (take j rest)" using jl by (rule take_run_all)
  moreover have "lo \<le> length (take j rest)" using j(1) jr by simp
  moreover have "case hi of None \<Rightarrow> True | Some h \<Rightarrow> length (take j rest) \<le> h"
    using j(2) run_len_hi[of cls _ rest] by (auto split: option.splits intro: le_trans min.coboundedI2)
  ultimately show ?thesis using j(3) by blast
qed

lemma sre_match_OneD:
  "sre_match (One cls # p) rest st = Some r \<Longrightarrow>
   \<exists>c y. rest = c # y \<and> cls c \<and> sre_match p y (advance st [c]) = Some r"
  by (cases rest) (simp_all split: if_splits)


lemma line_end_drop: "line_end z \<Longrightarrow> line_end (drop j z)"
proof (induction z arbitrary: j)
  case Nil
  then show ?case by simp
next
  case (Cons c z)
  show ?case
  proof (cases j)
    case 0
    with Cons.prems show ?thesis by simp
  next
    case (Suc j')
    show ?thesis
    proof (cases "dot c")
      case True
      with Cons.prems have "line_end z" by (simp add: line_end_def)
      from Cons.IH[OF this] Suc show ?thesis by simp
    next
      case False
      with Cons.prems have "z = []" by (simp add: line_end_def)
      with Suc show ?thesis by (simp add: line_end_def)
    qed
  qed
qed

lemma drop_in_run:
  assumes "k < length (takeWhile cls z)"
  shows "\<exists>c t. drop k z = c # t \<and> cls c"
proof -
  from assms have kz: "k < length z"
    using length_takeWhile_le[of cls z] by simp
  have "cls (takeWhile cls z ! k)"
    using assms by (metis nth_mem set_takeWhileD)
  then have "cls (z ! k)" using assms by (simp add: takeWhile_nth)
  moreover have "drop k z = z ! k # drop (Suc k) z" using kz by (simp add: Cons_nth_drop_Suc)
  ultimately show ?thesis by blast
qed

lemma dot_eol:
  "sre_match [GroupOpen, Rep dot 0 None, GroupClose, Eol] z (i, g, c) =
     (if line_end z then Some (g @ [takeWhile dot z]) else None)"
proof -
  let ?n = "length (takeWhile dot z)"
  let ?k = "\<lambda>k. sre_match [GroupClose, Eol] (drop k z) (advance (open_group (i, g, c)) (take k z))"
  have k_eq: "?k k = (if drop k z = [] \<or> drop k z = [10] then Some (g @ [take k z]) else None)" for k
    by simp
  have lhs: "sre_match [GroupOpen, Rep dot 0 None, GroupClose, Eol] z (i, g, c) = backtrack ?k 0 ?n"
    by (simp add: run_len_def)
  have tk: "take ?n z = takeWhile dot z" by (simp add: takeWhile_eq_take[symmetric])
  have dr: "drop ?n z = dropWhile dot z" by (simp add: dropWhile_eq_drop[symmetric])
  show ?thesis
  proof (cases "line_end z")
    case True
    then have "?k ?n = Some (g @ [takeWhile dot z])"
      unfolding k_eq tk dr by (simp add: line_end_def)
    then have "backtrack ?k 0 ?n = Some (g @ [takeWhile dot z])" by (rule backtrack_hit)
    with True lhs show ?thesis by simp
  next
    case False
    have "?k j = None" if "j \<le> ?n" for j
    proof (cases "j = ?n")
      case True
      with False show ?thesis unfolding k_eq using dr by (simp add: line_end_def)
    next
      case False
      with that have "j < ?n" by simp
      from drop_in_run[OF this] obtain a t where "drop j z = a # t" "dot a" by blast
      then show ?thesis unfolding k_eq by (simp add: dot_def)
    qed
    then have "backtrack ?k 0 ?n = None" by (rule backtrack_None)
    with False lhs show ?thesis by simp
  qed
qed

lemma tail_match:
  assumes "sre_match [Rep py_isspace 0 None, GroupOpen, Rep dot 0 None, GroupClose, Eol] y (i, g, None) = Some r"
  shows "r = g @ [takeWhile dot (dropWhile py_isspace y)] \<and> line_end (dropWhile py_isspace y)"
proof -
  let ?n = "length (takeWhile py_isspace y)"
  let ?k = "\<lambda>k. if line_end (drop k y) then Some (g @ [takeWhile dot (drop k y)]) else None"
  from assms have bt: "backtrack ?k 0 ?n = Some r"
    by (simp add: run_len_def dot_eol del: sre_match.simps(4))
  from backtrack_SomeD[OF bt] obtain j where
    j: "j \<le> ?n" "?k j = Some r" "\<forall>i. j < i \<and> i \<le> ?n \<longrightarrow> ?k i = None"
    by blast
  from j(2) have le: "line_end (drop j y)" by (simp split: if_splits)
  have "line_end (drop (?n - j) (drop j y))" using le by (rule line_end_drop)
  then have len: "line_end (drop ?n y)" using j(1) by simp
  have "j = ?n"
  proof (rule ccontr)
    assume "j \<noteq> ?n"
    with j(1) have "j < ?n" by simp
    with j(3) have "?k ?n = None" by blast
    with len show False by simp
  qed
  with j(2) len show ?thesis by (simp add: dropWhile_eq_drop[symmetric] split: if_splits)
qed

lemma decimal_not_space: "py_isdecimal c \<Longrightarrow> \<not> py_isspace c"
  unfolding class_defs by (simp del: One_nat_def) arith

lemma takeWhile_stop:
  "list_all cls x \<Longrightarrow> y = [] \<or> \<not> cls (hd y) \<Longrightarrow> takeWhile cls (x @ y) = x"
  by (cases y) (auto simp: list_all_iff)

lemma sre_match_RepI:
  assumes "list_all cls x" and "y = [] \<or> \<not> cls (hd y)" and "lo \<le> length x"
    and "case hi of None \<Rightarrow> True | Some h \<Rightarrow> length x \<le> h"
    and "sre_match p y (advance st x) = Some r"
  shows "sre_match (Rep cls lo hi # p) (x @ y) st = Some r"
proof -
  have n: "run_len cls hi (x @ y) = length x"
    using assms(4) by (simp add: run_len_def takeWhile_stop[OF assms(1,2)] split: option.splits)
  have "backtrack (\<lambda>k. sre_match p (drop k (x @ y)) (advance st (take k (x @ y)))) lo (length x)
          = Some r"
    by (rule backtrack_hit) (simp add: assms(5))
  with n assms(3) show ?thesis by simp
qed

lemma tail_matchI:
  assumes "line_end (dropWhile py_isspace t)"
  shows "sre_match [Rep py_isspace 0 None, GroupOpen, Rep dot 0 None, GroupClose, Eol] t (i, g, None)
           = Some (g @ [takeWhile dot (dropWhile py_isspace t)])"
proof -
  let ?x = "takeWhile py_isspace t" and ?y = "dropWhile py_isspace t"
  have x: "list_all py_isspace ?x" by (simp add: list_all_iff) (meson set_takeWhileD)
  have y: "?y = [] \<or> \<not> py_isspace (hd ?y)" using hd_dropWhile[of py_isspace t] by blast
  have "sre_match [GroupOpen, Rep dot 0 None, GroupClose, Eol] ?y (advance (i, g, None) ?x)
          = Some (g @ [takeWhile dot ?y])"
    using assms by (simp add: dot_eol del: sre_match.simps(4))
  from sre_match_RepI[OF x y _ _ this, of 0 None] show ?thesis by simp
qed

lemma inner_D:
  assumes "sre_match [GroupOpen, Rep not_colon 1 None, GroupClose, One (lit CHR '':''),
             Rep py_isspace 0 None, GroupOpen, Rep dot 0 None, GroupClose, Eol] z (i, g, c) = Some r"
  shows "\<exists>s t. z = s @ 58 # t \<and> list_all not_colon s \<and> s \<noteq> []
           \<and> r = g @ [s, takeWhile dot (dropWhile py_isspace t)]
           \<and> line_end (dropWhile py_isspace t)"
  using assms
  apply (simp del: sre_match.simps(6,7))
  apply (drule sre_match_RepD, elim exE conjE, simp del: sre_match.simps(6,7))
  apply (drule sre_match_OneD, elim exE conjE, simp del: sre_match.simps(6,7))
  apply (drule tail_match)
  apply (auto simp: lit_def)
  done

lemma inner_I:
  assumes "list_all not_colon s" and "s \<noteq> []" and "line_end (dropWhile py_isspace t)"
  shows "sre_match [GroupOpen, Rep not_colon 1 None, GroupClose, One (lit CHR '':''),
             Rep py_isspace 0 None, GroupOpen, Rep dot 0 None, GroupClose, Eol] (s @ 58 # t) (i, g, c)
           = Some (g @ [s, takeWhile dot (dropWhile py_isspace t)])"
proof -
  have "sre_match [GroupClose, One (lit CHR '':''),
             Rep py_isspace 0 None, GroupOpen, Rep dot 0 None, GroupClose, Eol] (58 # t)
          (advance (open_group (i, g, c)) s) = Some (g @ [s, takeWhile dot (dropWhile py_isspace t)])"
    using tail_matchI[OF assms(3), of "Suc (i + length s)" "g @ [s]"]
    by (simp add: lit_def del: sre_match.simps(4,7))
  from sre_match_RepI[OF assms(1) _ _ _ this, of 1 None] assms(2) show ?thesis
    by (simp add: not_colon_def Suc_le_eq del: sre_match.simps(6,7))
qed

lemma sender_match:
  assumes "sre_match [Rep py_isspace 0 None, GroupOpen, Rep not_colon 1 None, GroupClose,
             One (lit CHR '':''), Rep py_isspace 0 None, GroupOpen, Rep dot 0 None, GroupClose, Eol]
             y (i, g, None) = Some r"
  shows "\<exists>w s t. y = w @ s @ 58 # t \<and> list_all py_isspace w \<and> list_all not_colon s \<and> s \<noteq> []
           \<and> (\<not> py_isspace (hd s) \<or> length s = 1)
           \<and> r = g @ [s, takeWhile dot (dropWhile py_isspace t)]
           \<and> line_end (dropWhile py_isspace t)"
proof -
  let ?n = "length (takeWhile py_isspace y)"
  let ?k = "\<lambda>k. sre_match [GroupOpen, Rep not_colon 1 None, GroupClose,
             One (lit CHR '':''), Rep py_isspace 0 None, GroupOpen, Rep dot 0 None, GroupClose, Eol]
             (drop k y) (i + length (take k y), g, None)"
  from assms have bt: "backtrack ?k 0 ?n = Some r"
    by (simp add: run_len_def del: sre_match.simps(4))
  from backtrack_SomeD[OF bt] obtain j where
    j: "j \<le> ?n" "?k j = Some r" "\<forall>i. j < i \<and> i \<le> ?n \<longrightarrow> ?k i = None"
    by blast
  from inner_D[OF j(2)] obtain s t where
    st: "drop j y = s @ 58 # t" "list_all not_colon s" "s \<noteq> []"
      "r = g @ [s, takeWhile dot (dropWhile py_isspace t)]" "line_end (dropWhile py_isspace t)"
    by blast
  have w: "list_all py_isspace (take j y)" using j(1) by (rule take_run_all)
  have y: "y = take j y @ s @ 58 # t" using st(1) by (metis append_take_drop_id)
  have lead: "\<not> py_isspace (hd s) \<or> length s = 1"
  proof (cases "j = ?n")
    case True
    then have d: "dropWhile py_isspace y = s @ 58 # t"
      using st(1) by (simp add: dropWhile_eq_drop)
    then have "dropWhile py_isspace y \<noteq> []" by simp
    then have "\<not> py_isspace (hd (dropWhile py_isspace y))" by (rule hd_dropWhile)
    with d st(3) show ?thesis by simp
  next
    case False
    with j(1) have "Suc j \<le> ?n" by simp
    with j(3) have none: "?k (Suc j) = None" by simp
    have "length s = 1"
    proof (rule ccontr)
      assume "length s \<noteq> 1"
      with st(3) obtain a s' where s: "s = a # s'" "s' \<noteq> []" by (cases s) auto
      have "drop (Suc j) y = tl (drop j y)" by (simp add: drop_Suc tl_drop)
      with st(1) s have "drop (Suc j) y = s' @ 58 # t" by simp
      moreover have "list_all not_colon s'" using st(2) s by simp
      ultimately have "?k (Suc j) \<noteq> None"
        using inner_I[OF _ s(2) st(5), of "i + length (take (Suc j) y)" g None] by simp
      with none show False by simp
    qed
    then show ?thesis by simp
  qed
  from y w st(2,3,4,5) lead show ?thesis by blast
qed

lemma space_not_decimal: "py_isspace c \<Longrightarrow> \<not> py_isdecimal c"
  using decimal_not_space by blast

lemma hd_space_not_decimal: "list_all py_isspace w \<Longrightarrow> w \<noteq> [] \<Longrightarrow> \<not> py_isdecimal (hd w)"
  by (cases w) (auto dest: space_not_decimal)

lemma hd_decimal_not_space: "list_all py_isdecimal h \<Longrightarrow> h \<noteq> [] \<Longrightarrow> \<not> py_isspace (hd h)"
  by (cases h) (auto dest: decimal_not_space)

lemma literal_classes:
  "\<not> py_isdecimal 47" "\<not> py_isdecimal 44" "\<not> py_isdecimal 58" "\<not> py_isdecimal 97"
  "\<not> py_isdecimal 112" "\<not> py_isspace 97" "\<not> py_isspace 112" "\<not> py_isspace 45"
  "\<not> not_colon 58" "lit CHR ''/'' 47" "lit CHR '','' 44" "lit CHR '':'' 58" "lit CHR ''m'' 109"
  "lit CHR ''-'' 45" "ap 97" "ap 112"
  by (simp_all add: class_defs)

lemma all_dot_line: "list_all dot m \<Longrightarrow> takeWhile dot m = m \<and> line_end m"
  by (simp add: line_end_def list_all_iff)

lemma header_match_complete:
  assumes d: "list_all py_isdecimal d1" "1 \<le> length d1" "length d1 \<le> 2"
      "list_all py_isdecimal d2" "1 \<le> length d2" "length d2 \<le> 2"
      "list_all py_isdecimal d3" "2 \<le> length d3" "length d3 \<le> 4"
    and t: "list_all py_isdecimal h" "1 \<le> length h" "length h \<le> 2"
      "list_all py_isdecimal mm" "length mm = 2"
      "list_all py_isspace w2" "length w2 \<le> 1" "a = 97 \<or> a = 112"
    and w: "list_all py_isspace w1" "list_all py_isspace w3" "list_all py_isspace w4"
      "list_all py_isspace w5"
    and s: "list_all not_colon s" "s \<noteq> []" "\<not> py_isspace (hd s)"
    and m: "list_all dot m" "m = [] \<or> \<not> py_isspace (hd m)"
  shows "header_match
           (d1 @ 47 # d2 @ 47 # d3 @ 44 # w1 @ h @ 58 # mm @ w2 @ a # 109 # w3 @ 45 # w4
              @ s @ 58 # w5 @ m) =
         Some \<lparr>date = d1 @ 47 # d2 @ 47 # d3, time = h @ 58 # mm @ w2 @ [a, 109],
               sender = s, message = m\<rparr>"
proof -
  from t(8) have a: "\<not> py_isdecimal a" "\<not> py_isspace a" "ap a"
    using literal_classes by auto
  from t(2) have h: "h \<noteq> []" by auto
  from s(2) have sl: "Suc 0 \<le> length s" by (cases s) auto
  note facts = d[unfolded One_nat_def] t(1-7)[unfolded One_nat_def] w s m a h sl literal_classes hd_space_not_decimal hd_decimal_not_space
    hd_append all_dot_line
  have "sre_match pattern
           (d1 @ 47 # d2 @ 47 # d3 @ 44 # w1 @ h @ 58 # mm @ w2 @ a # 109 # w3 @ 45 # w4
              @ s @ 58 # w5 @ m) (0, [], None) =
         Some [d1 @ 47 # d2 @ 47 # d3, h @ 58 # mm @ w2 @ [a, 109], s, m]"
    apply (simp add: pattern_def del: sre_match.simps(6,7))
    apply (rule sre_match_RepI; simp add: facts del: sre_match.simps(7))
    apply (rule sre_match_RepI; simp add: facts del: sre_match.simps(7))
    apply (rule sre_match_RepI; simp add: facts del: sre_match.simps(7))
    apply (rule sre_match_RepI; simp add: facts del: sre_match.simps(7))
    apply (rule sre_match_RepI; simp add: facts del: sre_match.simps(7))
    apply (rule sre_match_RepI; simp add: facts del: sre_match.simps(7))
    apply (rule sre_match_RepI; simp add: facts del: sre_match.simps(7))
    apply (rule sre_match_RepI; simp add: facts del: sre_match.simps(7))
    apply (rule sre_match_RepI; simp add: facts del: sre_match.simps(7))
    apply (rule sre_match_RepI; simp add: facts del: sre_match.simps(7))
    apply (rule sre_match_RepI; simp add: facts dot_eol del: sre_match.simps(4,7))
    done
  then show ?thesis by (simp add: header_match_def)
qed

lemma header_groups:
  assumes "sre_match pattern line (0, [], None) = Some r"
  shows "\<exists>d1 d2 d3 w1 h mm w2 a w3 w4 s y.
     line = d1 @ 47 # d2 @ 47 # d3 @ 44 # w1 @ h @ 58 # mm @ w2 @ a # 109 # w3 @ 45 # w4 @ s @ 58 # y \<and>
     r = [d1 @ 47 # d2 @ 47 # d3, h @ 58 # mm @ w2 @ [a, 109], s,
          takeWhile dot (dropWhile py_isspace y)] \<and>
     list_all py_isdecimal d1 \<and> 1 \<le> length d1 \<and> length d1 \<le> 2 \<and>
     list_all py_isdecimal d2 \<and> 1 \<le> length d2 \<and> length d2 \<le> 2 \<and>
     list_all py_isdecimal d3 \<and> 2 \<le> length d3 \<and> length d3 \<le> 4 \<and>
     list_all py_isspace w1 \<and>
     list_all py_isdecimal h \<and> 1 \<le> length h \<and> length h \<le> 2 \<and>
     list_all py_isdecimal mm \<and> length mm = 2 \<and>
     list_all py_isspace w2 \<and> length w2 \<le> 1 \<and> (a = 97 \<or> a = 112) \<and>
     list_all py_isspace w3 \<and> list_all py_isspace w4 \<and>
     list_all not_colon s \<and> s \<noteq> [] \<and> (\<not> py_isspace (hd s) \<or> length s = 1) \<and>
     line_end (dropWhile py_isspace y)"
  using assms
  apply (simp add: pattern_def del: sre_match.simps(6,7))
  apply (drule sre_match_RepD, elim exE conjE, simp del: sre_match.simps(6,7))
  apply (drule sre_match_OneD, elim exE conjE, simp del: sre_match.simps(6,7))
  apply (drule sre_match_RepD, elim exE conjE, simp del: sre_match.simps(6,7))
  apply (drule sre_match_OneD, elim exE conjE, simp del: sre_match.simps(6,7))
  apply (drule sre_match_RepD, elim exE conjE, simp del: sre_match.simps(6,7))
  apply (drule sre_match_OneD, elim exE conjE, simp del: sre_match.simps(6,7))
  apply (drule sre_match_RepD, elim exE conjE, simp del: sre_match.simps(6,7))
  apply (drule sre_match_RepD, elim exE conjE, simp del: sre_match.simps(6,7))
  apply (drule sre_match_OneD, elim exE conjE, simp del: sre_match.simps(6,7))
  apply (drule sre_match_RepD, elim exE conjE, simp del: sre_match.simps(6,7))
  apply (drule sre_match_RepD, elim exE conjE, simp del: sre_match.simps(6,7))
  apply (drule sre_match_OneD, elim exE conjE, simp del: sre_match.simps(6,7))
  apply (drule sre_match_OneD, elim exE conjE, simp del: sre_match.simps(6,7))
  apply (drule sre_match_RepD, elim exE conjE, simp del: sre_match.simps(6,7))
  apply (drule sre_match_OneD, elim exE conjE, simp del: sre_match.simps(6,7))
  apply (drule sender_match[unfolded One_nat_def], elim exE conjE)
  apply (simp add: lit_def ap_def)
  apply (intro exI conjI)
  apply (rule refl)
  apply (rule refl | assumption | simp)+
  done

lemma header_match_groups:
  assumes "header_match line = Some r"
  shows "sre_match pattern line (0, [], None) = Some [date r, time r, sender r, message r]"
  using assms by (auto simp: header_match_def split: option.splits list.splits)

lemma tail_split:
  fixes y :: str
  assumes "line_end (dropWhile py_isspace y)"
  defines "m \<equiv> takeWhile dot (dropWhile py_isspace y)"
  shows "\<exists>w nl. y = w @ m @ nl \<and> list_all py_isspace w \<and> (nl = [] \<or> nl = [10])
           \<and> (m = [] \<or> \<not> py_isspace (hd m))"
proof -
  let ?z = "dropWhile py_isspace y"
  have 1: "y = takeWhile py_isspace y @ m @ dropWhile dot ?z"
    unfolding m_def by simp
  have 2: "list_all py_isspace (takeWhile py_isspace y)"
    by (simp add: list_all_iff) (meson set_takeWhileD)
  have 3: "dropWhile dot ?z = [] \<or> dropWhile dot ?z = [10]"
    using assms(1) by (simp add: line_end_def)
  have 4: "m = [] \<or> \<not> py_isspace (hd m)"
  proof (cases "m = []")
    case False
    have "?z \<noteq> []"
    proof
      assume "?z = []"
      then have "takeWhile dot ?z = []" by (simp only: takeWhile.simps)
      with False show False unfolding m_def by simp
    qed
    then have "\<not> py_isspace (hd ?z)" by (rule hd_dropWhile)
    moreover have "hd m = hd ?z" using False unfolding m_def by (cases ?z) (auto split: if_splits)
    ultimately show ?thesis by simp
  qed simp
  from 1 2 3 4 show ?thesis by blast
qed

lemma header_match_time:
  assumes "header_match line = Some r"
  shows "\<exists>h mm w a. time r = h @ 58 # mm @ w @ [a, 109]
           \<and> list_all py_isdecimal h \<and> list_all py_isdecimal mm \<and> list_all py_isspace w
           \<and> (a = 97 \<or> a = 112)"
  using header_groups[OF header_match_groups[OF assms]] by auto

lemma header_match_split:
  assumes "header_match line = Some r"
  shows "\<exists>w1 w2 w3 w4 nl.
           line = date r @ 44 # w1 @ time r @ w2 @ 45 # w3 @ sender r @ 58 # w4 @ message r @ nl
           \<and> list_all py_isspace w1 \<and> list_all py_isspace w2 \<and> list_all py_isspace w3
           \<and> list_all py_isspace w4 \<and> (nl = [] \<or> nl = [10])"
    and "sender r \<noteq> []" and "list_all not_colon (sender r)"
    and "message r = [] \<or> \<not> py_isspace (hd (message r))"
    and "\<not> py_isspace (hd (sender r)) \<or> length (sender r) = 1"
proof -
  from header_groups[OF header_match_groups[OF assms]] obtain d1 d2 d3 w1 h mm w2 a w3 w4 s y
    where line: "line = d1 @ 47 # d2 @ 47 # d3 @ 44 # w1 @ h @ 58 # mm @ w2 @ a # 109 # w3 @ 45 # w4 @ s @ 58 # y"
      and r: "[date r, time r, sender r, message r] = [d1 @ 47 # d2 @ 47 # d3, h @ 58 # mm @ w2 @ [a, 109], s,
          takeWhile dot (dropWhile py_isspace y)]"
      and sp: "list_all py_isspace w1" "list_all py_isspace w3" "list_all py_isspace w4"
      and s: "list_all not_colon s" "s \<noteq> []" "\<not> py_isspace (hd s) \<or> length s = 1"
      and le: "line_end (dropWhile py_isspace y)"
    by blast
  from tail_split[OF le] obtain w nl where
    y: "y = w @ takeWhile dot (dropWhile py_isspace y) @ nl" "list_all py_isspace w" "nl = [] \<or> nl = [10]"
    and m: "takeWhile dot (dropWhile py_isspace y) = [] \<or> \<not> py_isspace (hd (takeWhile dot (dropWhile py_isspace y)))"
    by blast
  from r have d: "date r = d1 @ 47 # d2 @ 47 # d3" and t: "time r = h @ 58 # mm @ w2 @ [a, 109]"
    and sn: "sender r = s" and mr: "message r = takeWhile dot (dropWhile py_isspace y)"
    by simp_all
  have "line = date r @ 44 # w1 @ time r @ w3 @ 45 # w4 @ sender r @ 58 # w @ message r @ nl"
    by (subst line, subst y(1)) (simp add: d t sn mr)
  with sp y(2,3) show "\<exists>w1 w2 w3 w4 nl.
           line = date r @ 44 # w1 @ time r @ w2 @ 45 # w3 @ sender r @ 58 # w4 @ message r @ nl
           \<and> list_all py_isspace w1 \<and> list_all py_isspace w2 \<and> list_all py_isspace w3
           \<and> list_all py_isspace w4 \<and> (nl = [] \<or> nl = [10])"
    by blast
  from s sn show "sender r \<noteq> []" "list_all not_colon (sender r)" by auto
  from m mr show "message r = [] \<or> \<not> py_isspace (hd (message r))" by simp
  from s sn show "\<not> py_isspace (hd (sender r)) \<or> length (sender r) = 1" by simp
qed

section \<open>\<^verbatim>\<open>strip\<close> and the cleaned line\<close>

lemma dropWhile_fixed: "x = [] \<or> \<not> P (hd x) \<Longrightarrow> dropWhile P x = x"
  by (cases x) auto

lemma strip_trimmed: "trimmed (strip s)"
proof -
  let ?a = "dropWhile py_isspace s"
  let ?b = "dropWhile py_isspace (rev ?a)"
  have s: "strip s = rev ?b" by (simp add: strip_def)
  show ?thesis
  proof (cases "?b = []")
    case True
    with s show ?thesis by (simp add: trimmed_def)
  next
    case False
    then have hb: "\<not> py_isspace (hd ?b)" by (rule hd_dropWhile)
    have an: "?a \<noteq> []"
    proof
      assume "?a = []"
      then have "?b = []" by (auto dest: set_dropWhileD)
      with False show False by simp
    qed
    then have ha: "\<not> py_isspace (hd ?a)" by (rule hd_dropWhile)
    have "rev (takeWhile py_isspace (rev ?a) @ ?b) = rev (rev ?a)"
      by (simp only: takeWhile_dropWhile_id)
    then have "rev ?b @ rev (takeWhile py_isspace (rev ?a)) = ?a"
      by (simp only: rev_append rev_rev_ident)
    then have "hd (rev ?b @ rev (takeWhile py_isspace (rev ?a))) = hd ?a"
      by (rule arg_cong)
    moreover have "hd (rev ?b @ rev (takeWhile py_isspace (rev ?a))) = hd (rev ?b)"
      using False by (simp only: hd_append rev_is_Nil_conv if_False)
    ultimately have "hd ?a = hd (rev ?b)" by (simp only:)
    with ha have "\<not> py_isspace (hd (rev ?b))" by simp
    moreover have "last (rev ?b) = hd ?b" using False by (simp add: last_rev)
    ultimately show ?thesis using hb s by (simp add: trimmed_def)
  qed
qed

lemma trimmed_strip: "trimmed x \<Longrightarrow> strip x = x"
proof -
  assume t: "trimmed x"
  then have 1: "dropWhile py_isspace x = x" by (intro dropWhile_fixed) (auto simp: trimmed_def)
  have "rev x = [] \<or> \<not> py_isspace (hd (rev x))" using t by (auto simp: trimmed_def hd_rev)
  then have "dropWhile py_isspace (rev x) = rev x" by (rule dropWhile_fixed)
  with 1 show ?thesis by (simp add: strip_def)
qed

lemma strip_idem: "strip (strip s) = strip s"
  by (rule trimmed_strip) (rule strip_trimmed)

lemma strip_blank: "list_all py_isspace s \<Longrightarrow> strip s = []"
proof -
  assume "list_all py_isspace s"
  then have "dropWhile py_isspace s = []" by (simp add: list_all_iff)
  then show ?thesis unfolding strip_def by (simp only: rev.simps dropWhile.simps)
qed

lemma clean_line_StrD: "clean_line l = Str s \<Longrightarrow> trimmed s"
  by (cases l) (auto split: option.splits simp: strip_trimmed)

lemma header_match_Nil: "header_match [] = None"
  by (simp add: eval_defs)

section \<open>The loop\<close>

lemma parse_loop_append:
  "parse_loop acc (xs @ ys) =
     (case parse_loop acc xs of Inl e \<Rightarrow> Inl e | Inr acc' \<Rightarrow> parse_loop acc' ys)"
  by (induction xs arbitrary: acc) (auto split: sum.splits)

lemma loop_body_header:
  "clean_line l = Str s \<Longrightarrow> header_match s = Some m \<Longrightarrow> loop_body acc l = Inr (acc @ [m])"
  by simp

lemma loop_body_continuation:
  "clean_line l = Str s \<Longrightarrow> header_match s = None \<Longrightarrow> acc \<noteq> [] \<Longrightarrow>
   loop_body acc l = Inr (butlast acc @ [(last acc)\<lparr>message := message (last acc) @ 32 # s\<rparr>])"
  by (simp add: py_str_def trimmed_strip[OF clean_line_StrD])

lemma loop_body_discard:
  "clean_line l = Str s \<Longrightarrow> header_match s = None \<Longrightarrow> loop_body [] l = Inr []"
  by simp

lemma loop_body_bytes:
  "clean_line l = Bytes b \<Longrightarrow> loop_body acc l = Inl TypeError"
  by simp

lemma continuation_run:
  "list_all2 (\<lambda>l s. clean_line l = Str s \<and> header_match s = None) cs ss \<Longrightarrow> acc \<noteq> [] \<Longrightarrow>
   parse_loop acc cs =
     Inr (butlast acc @ [(last acc)\<lparr>message := message (last acc) @ concat (map ((#) 32) ss)\<rparr>])"
proof (induction cs ss arbitrary: acc rule: list_all2_induct)
  case Nil
  then show ?case by simp
next
  case (Cons l cs s ss)
  let ?acc = "butlast acc @ [(last acc)\<lparr>message := message (last acc) @ 32 # s\<rparr>]"
  from Cons.hyps(1) Cons.prems have "loop_body acc l = Inr ?acc"
    by (intro loop_body_continuation) simp_all
  moreover have "parse_loop ?acc cs =
     Inr (butlast ?acc @ [(last ?acc)\<lparr>message := message (last ?acc) @ concat (map ((#) 32) ss)\<rparr>])"
    by (rule Cons.IH) simp
  ultimately show ?case by simp
qed

lemma header_run:
  "list_all2 (\<lambda>l m. \<exists>s. clean_line l = Str s \<and> header_match s = Some m) ls ms \<Longrightarrow>
   parse_loop acc ls = Inr (acc @ ms)"
proof (induction ls ms arbitrary: acc rule: list_all2_induct)
  case Nil
  then show ?case by simp
next
  case (Cons l ls m ms)
  from Cons.hyps(1) have "loop_body acc l = Inr (acc @ [m])"
    by (auto intro: loop_body_header)
  with Cons.IH[of "acc @ [m]"] show ?case by simp
qed

lemma not_class_upper:
  "\<not> py_isdecimal 65" "\<not> py_isdecimal 80" "\<not> py_isdecimal 77"
  "\<not> py_isspace 65" "\<not> py_isspace 80" "\<not> py_isspace 77"
  by (simp_all add: class_defs)

lemma zip_by_index:
  "length ds = length ms \<Longrightarrow> zip ds ms = map (\<lambda>i. (ds ! i, ms ! i)) [0..<length ms]"
  by (rule nth_equalityI) simp_all

section \<open>The post-pass\<close>

text \<open>
  Whatever the conversion is, as long as it returns one value per row, the frame keeps
  exactly the rows whose date converted, in their order. Which texts convert is decided
  inside pandas and is not part of this model.
\<close>

lemma normalize_dates_by_index:
  assumes "length (to_datetime (map date ms)) = length ms"
  shows "normalize_dates to_datetime ms =
           map (\<lambda>i. \<lparr>df_date = to_datetime (map date ms) ! i, df_time = time (ms ! i),
                      df_sender = sender (ms ! i), df_message = message (ms ! i)\<rparr>)
             (filter (\<lambda>i. to_datetime (map date ms) ! i \<noteq> None) [0..<length ms])"
  by (simp add: normalize_dates_def dropna_def assign_dates_def zip_by_index[OF assms]
      filter_map comp_def)

section \<open>The claims\<close>

text \<open>
  Claim C1. A trimmed line that does not match the header pattern and arrives when
  \<^verbatim>\<open>messages\<close> is not empty is appended to the message of the last entry, as one space
  followed by the text of the line (first conjunct). A run of such lines accumulates in
  arrival order, each after its own space, duplicates included (second conjunct). The
  three lines of the scenario give two entries, Bob with \<^verbatim>\<open>Hello How are you?\<close> and
  Amy with \<^verbatim>\<open>Good!\<close> (third conjunct).
\<close>

theorem continuation_appended:
  "(parse_messages ls = Inr ms \<and> ms \<noteq> [] \<and> clean_line l = Str s \<and> header_match s = None \<longrightarrow>
      parse_messages (ls @ [l]) =
        Inr (butlast ms @ [(last ms)\<lparr>message := message (last ms) @ py_str '' '' @ s\<rparr>]))
   \<and> (parse_messages ls = Inr ms \<and> ms \<noteq> []
        \<and> list_all2 (\<lambda>l s. clean_line l = Str s \<and> header_match s = None) cs ss \<longrightarrow>
      parse_messages (ls @ cs) =
        Inr (butlast ms @
          [(last ms)\<lparr>message := message (last ms) @ concat (map (\<lambda>s. py_str '' '' @ s) ss)\<rparr>]))
   \<and> parse_messages
        [Str (py_str ''1/1/24, 10:00 am - Bob: Hello''), Str (py_str ''How are you?''),
         Str (py_str ''1/1/24, 10:01 am - Amy: Good!'')] =
      Inr [\<lparr>date = py_str ''1/1/24'', time = py_str ''10:00 am'', sender = py_str ''Bob'',
             message = py_str ''Hello How are you?''\<rparr>,
           \<lparr>date = py_str ''1/1/24'', time = py_str ''10:01 am'', sender = py_str ''Amy'',
             message = py_str ''Good!''\<rparr>]"
proof (intro conjI impI)
  assume a: "parse_messages ls = Inr ms \<and> ms \<noteq> [] \<and> clean_line l = Str s \<and> header_match s = None"
  then have "loop_body ms l =
      Inr (butlast ms @ [(last ms)\<lparr>message := message (last ms) @ 32 # s\<rparr>])"
    by (intro loop_body_continuation) simp_all
  with a show "parse_messages (ls @ [l]) =
        Inr (butlast ms @ [(last ms)\<lparr>message := message (last ms) @ py_str '' '' @ s\<rparr>])"
    by (simp add: parse_messages_def parse_loop_append py_str_def)
next
  assume a: "parse_messages ls = Inr ms \<and> ms \<noteq> []
        \<and> list_all2 (\<lambda>l s. clean_line l = Str s \<and> header_match s = None) cs ss"
  then have "parse_loop ms cs =
     Inr (butlast ms @ [(last ms)\<lparr>message := message (last ms) @ concat (map ((#) 32) ss)\<rparr>])"
    by (intro continuation_run) simp_all
  with a show "parse_messages (ls @ cs) =
        Inr (butlast ms @
          [(last ms)\<lparr>message := message (last ms) @ concat (map (\<lambda>s. py_str '' '' @ s) ss)\<rparr>])"
    by (simp add: parse_messages_def parse_loop_append py_str_def)
next
  show "parse_messages
        [Str (py_str ''1/1/24, 10:00 am - Bob: Hello''), Str (py_str ''How are you?''),
         Str (py_str ''1/1/24, 10:01 am - Amy: Good!'')] =
      Inr [\<lparr>date = py_str ''1/1/24'', time = py_str ''10:00 am'', sender = py_str ''Bob'',
             message = py_str ''Hello How are you?''\<rparr>,
           \<lparr>date = py_str ''1/1/24'', time = py_str ''10:01 am'', sender = py_str ''Amy'',
             message = py_str ''Good!''\<rparr>]"
    by (simp add: parse_messages_def eval_defs)
qed

text \<open>
  After the header line of Bob, the line \<^verbatim>\<open>" How are you?  "\<close> is stripped and appended;
  the same text arriving a second time is appended again.
\<close>

theorem continuation_appended_witness:
  "parse_messages [Str (py_str ''1/1/24, 10:00 am - Bob: Hello'')] =
     Inr [\<lparr>date = py_str ''1/1/24'', time = py_str ''10:00 am'', sender = py_str ''Bob'',
           message = py_str ''Hello''\<rparr>]
   \<and> clean_line (Str (py_str '' How are you?  '')) = Str (py_str ''How are you?'')
   \<and> header_match (py_str ''How are you?'') = None
   \<and> parse_messages
        ([Str (py_str ''1/1/24, 10:00 am - Bob: Hello'')] @ [Str (py_str '' How are you?  '')]) =
     Inr [\<lparr>date = py_str ''1/1/24'', time = py_str ''10:00 am'', sender = py_str ''Bob'',
           message = py_str ''Hello How are you?''\<rparr>]
   \<and> parse_messages
        ([Str (py_str ''1/1/24, 10:00 am - Bob: Hello'')]
         @ [Str (py_str '' How are you?  ''), Bytes ''How are you?'']) =
     Inr [\<lparr>date = py_str ''1/1/24'', time = py_str ''10:00 am'', sender = py_str ''Bob'',
           message = py_str ''Hello How are you? How are you?''\<rparr>]"
proof -
  let ?bob = "\<lparr>date = py_str ''1/1/24'', time = py_str ''10:00 am'', sender = py_str ''Bob'',
           message = py_str ''Hello''\<rparr>"
  have h: "parse_messages [Str (py_str ''1/1/24, 10:00 am - Bob: Hello'')] = Inr [?bob]
      \<and> [?bob] \<noteq> []
      \<and> clean_line (Str (py_str '' How are you?  '')) = Str (py_str ''How are you?'')
      \<and> header_match (py_str ''How are you?'') = None"
    by (simp add: parse_messages_def eval_defs)
  have c: "clean_line (Bytes ''How are you?'') = Str (py_str ''How are you?'')"
    by (simp add: decode_utf8_def eval_defs)
  from h c have h2: "parse_messages [Str (py_str ''1/1/24, 10:00 am - Bob: Hello'')] = Inr [?bob]
      \<and> [?bob] \<noteq> []
      \<and> list_all2 (\<lambda>l s. clean_line l = Str s \<and> header_match s = None)
            [Str (py_str '' How are you?  ''), Bytes ''How are you?'']
            [py_str ''How are you?'', py_str ''How are you?'']"
    by simp
  note w = continuation_appended[of "[Str (py_str ''1/1/24, 10:00 am - Bob: Hello'')]" "[?bob]"
      "Str (py_str '' How are you?  '')" "py_str ''How are you?''"
      "[Str (py_str '' How are you?  ''), Bytes ''How are you?'']"
      "[py_str ''How are you?'', py_str ''How are you?'']"]
  from w[THEN conjunct1, THEN mp, OF h] w[THEN conjunct2, THEN conjunct1, THEN mp, OF h2] h
  show ?thesis by (simp add: py_str_def)
qed

text \<open>
  Claim C2. When every line of the input matches the header pattern, the loop ends
  without an error with exactly one entry per line, and the entry at each position is the
  one matched from the line at that position: the order of the lines is kept.
\<close>

theorem one_record_per_header_line:
  assumes "list_all (\<lambda>l. \<exists>s m. clean_line l = Str s \<and> header_match s = Some m) ls"
  shows "\<exists>ms. parse_messages ls = Inr ms \<and> length ms = length ls
           \<and> list_all2 (\<lambda>l m. \<exists>s. clean_line l = Str s \<and> header_match s = Some m) ls ms"
proof -
  have "\<exists>ms. list_all2 (\<lambda>l m. \<exists>s. clean_line l = Str s \<and> header_match s = Some m) ls ms"
    using assms
  proof (induction ls)
    case Nil
    then show ?case by simp
  next
    case (Cons l ls)
    then obtain ms where
      "list_all2 (\<lambda>l m. \<exists>s. clean_line l = Str s \<and> header_match s = Some m) ls ms"
      by auto
    moreover from Cons.prems obtain s m where "clean_line l = Str s \<and> header_match s = Some m"
      by auto
    ultimately have
      "list_all2 (\<lambda>l m. \<exists>s. clean_line l = Str s \<and> header_match s = Some m) (l # ls) (m # ms)"
      by auto
    then show ?case by blast
  qed
  then obtain ms where
    ms: "list_all2 (\<lambda>l m. \<exists>s. clean_line l = Str s \<and> header_match s = Some m) ls ms"
    by blast
  from header_run[OF ms, of "[]"] have "parse_messages ls = Inr ms"
    by (simp add: parse_messages_def)
  moreover from ms have "length ms = length ls" by (simp add: list_all2_lengthD)
  ultimately show ?thesis using ms by blast
qed

text \<open>
  Two header lines, one \<^verbatim>\<open>str\<close> and one \<^verbatim>\<open>bytes\<close>, give two entries.
\<close>

theorem one_record_per_header_line_witness:
  "(\<exists>s m. clean_line (Str (py_str ''1/1/24, 10:00 am - Bob: Hello'')) = Str s
            \<and> header_match s = Some m)
   \<and> (\<exists>s m. clean_line (Bytes ''1/1/24, 10:01 am - Amy: Good!'') = Str s
            \<and> header_match s = Some m)
   \<and> (\<exists>ms. parse_messages
              [Str (py_str ''1/1/24, 10:00 am - Bob: Hello''),
               Bytes ''1/1/24, 10:01 am - Amy: Good!''] = Inr ms
          \<and> length ms = 2)"
proof -
  have h: "list_all (\<lambda>l. \<exists>s m. clean_line l = Str s \<and> header_match s = Some m)
             [Str (py_str ''1/1/24, 10:00 am - Bob: Hello''),
              Bytes ''1/1/24, 10:01 am - Amy: Good!'']"
    by (simp add: decode_utf8_def eval_defs)
  from one_record_per_header_line[OF h] h show ?thesis by auto
qed

text \<open>
  Claim C3. The claim is that a line that is not valid UTF-8 is taken through the
  fallback and handled like any other line. The program does not do that: the fallback
  leaves the line a \<^verbatim>\<open>bytes\<close> object, and \<^verbatim>\<open>pattern.match\<close> of the \<^verbatim>\<open>str\<close>
  pattern raises \<^verbatim>\<open>TypeError\<close> on it. Here a file in Latin-1 whose second line ends in
  the byte \<^verbatim>\<open>0xE9\<close> aborts the whole loop.
\<close>

theorem undecodable_line_raises:
  "decode_utf8 (''2/1/24, 9:15 am - Amy: caf'' @ [CHR 0xE9]) = None
   \<and> parse_messages
        [Bytes ''1/1/24, 10:00 am - Bob: Hello'',
         Bytes (''2/1/24, 9:15 am - Amy: caf'' @ [CHR 0xE9])] = Inl TypeError"
  by (simp add: parse_messages_def decode_utf8_def is_cont_def eval_defs)

text \<open>
  Claim C4, as amended. The marker is not optional: the pattern ends the time group
  with \<^verbatim>\<open>[ap]m\<close>, so the time field of every line that matches ends in \<^verbatim>\<open>am\<close> or
  \<^verbatim>\<open>pm\<close>, and a line with a 24-hour time and no marker does not match.
\<close>

theorem marker_required:
  "header_match line = Some r \<Longrightarrow>
   \<exists>q. time r = q @ py_str ''am'' \<or> time r = q @ py_str ''pm''"
proof -
  assume "header_match line = Some r"
  from header_match_time[OF this] obtain h mm w a where
    "time r = h @ 58 # mm @ w @ [a, 109]" "a = 97 \<or> a = 112"
    by blast
  then have "time r = (h @ 58 # mm @ w) @ py_str ''am'' \<or> time r = (h @ 58 # mm @ w) @ py_str ''pm''"
    by (auto simp: py_str_def)
  then show ?thesis by blast
qed

text \<open>
  The same line with a 12-hour time and \<^verbatim>\<open>pm\<close> matches.
\<close>

theorem marker_required_witness:
  "header_match (py_str ''1/1/24, 1:45 pm - Bob: hi'') =
     Some \<lparr>date = py_str ''1/1/24'', time = py_str ''1:45 pm'', sender = py_str ''Bob'',
           message = py_str ''hi''\<rparr>
   \<and> (\<exists>q. py_str ''1:45 pm'' = q @ py_str ''am'' \<or> py_str ''1:45 pm'' = q @ py_str ''pm'')"
proof -
  have h: "header_match (py_str ''1/1/24, 1:45 pm - Bob: hi'') =
     Some \<lparr>date = py_str ''1/1/24'', time = py_str ''1:45 pm'', sender = py_str ''Bob'',
           message = py_str ''hi''\<rparr>"
    by (simp add: eval_defs)
  from marker_required[OF h] h show ?thesis by simp
qed

text \<open>
  The line of the claim, with \<^verbatim>\<open>13:45\<close> and no marker, does not match and gives no entry.
\<close>

theorem marker_missing_counterexample:
  "header_match (py_str ''1/1/24, 13:45 - Bob: hi'') = None
   \<and> parse_messages [Str (py_str ''1/1/24, 13:45 - Bob: hi'')] = Inr []"
  by (simp add: parse_messages_def eval_defs)

text \<open>
  Claim C5, as amended. The marker is matched case-sensitively (the pattern is compiled
  without flags): the time field of a line that matches consists of decimal digits,
  whitespace, the colon and the lower-case letters \<^verbatim>\<open>a\<close>, \<^verbatim>\<open>p\<close>, \<^verbatim>\<open>m\<close>, so it holds
  no upper-case \<^verbatim>\<open>A\<close>, \<^verbatim>\<open>P\<close> or \<^verbatim>\<open>M\<close>.
\<close>

theorem marker_lower_case:
  assumes "header_match line = Some r"
  shows "list_all (\<lambda>c. py_isdecimal c \<or> py_isspace c \<or> c \<in> set (py_str '':apm'')) (time r)
         \<and> of_char CHR ''A'' \<notin> set (time r) \<and> of_char CHR ''P'' \<notin> set (time r)
         \<and> of_char CHR ''M'' \<notin> set (time r)"
proof -
  from header_match_time[OF assms] obtain h mm w a where
    t: "time r = h @ 58 # mm @ w @ [a, 109]" and
    c: "list_all py_isdecimal h" "list_all py_isdecimal mm" "list_all py_isspace w" "a = 97 \<or> a = 112"
    by blast
  have 1: "list_all (\<lambda>c. py_isdecimal c \<or> py_isspace c \<or> c \<in> set (py_str '':apm'')) (time r)"
    using c unfolding t by (auto simp: list_all_iff py_str_def)
  have "c \<noteq> 65 \<and> c \<noteq> 80 \<and> c \<noteq> 77" if "c \<in> set (time r)" for c
  proof -
    from 1 that have "py_isdecimal c \<or> py_isspace c \<or> c \<in> set (py_str '':apm'')"
      by (simp add: list_all_iff)
    then show ?thesis using not_class_upper by (auto simp: py_str_def)
  qed
  then have "65 \<notin> set (time r) \<and> 80 \<notin> set (time r) \<and> 77 \<notin> set (time r)" by blast
  with 1 show ?thesis by simp
qed

text \<open>
  The line with the lower-case marker matches.
\<close>

theorem marker_lower_case_witness:
  "header_match (py_str ''1/1/24, 9:42 pm - Bob: hi'') =
     Some \<lparr>date = py_str ''1/1/24'', time = py_str ''9:42 pm'', sender = py_str ''Bob'',
           message = py_str ''hi''\<rparr>
   \<and> of_char CHR ''P'' \<notin> set (py_str ''9:42 pm'')"
proof -
  have h: "header_match (py_str ''1/1/24, 9:42 pm - Bob: hi'') =
     Some \<lparr>date = py_str ''1/1/24'', time = py_str ''9:42 pm'', sender = py_str ''Bob'',
           message = py_str ''hi''\<rparr>"
    by (simp add: eval_defs)
  from marker_lower_case[OF h] h show ?thesis by simp
qed

text \<open>
  The line of the claim with \<^verbatim>\<open>PM\<close> gives no entry; with \<^verbatim>\<open>pm\<close> it gives one.
\<close>

theorem marker_upper_case_counterexample:
  "parse_messages [Str (py_str ''1/1/24, 9:42 PM - Bob: hi'')] = Inr []
   \<and> parse_messages [Str (py_str ''1/1/24, 9:42 pm - Bob: hi'')] =
       Inr [\<lparr>date = py_str ''1/1/24'', time = py_str ''9:42 pm'', sender = py_str ''Bob'',
             message = py_str ''hi''\<rparr>]"
  by (simp add: parse_messages_def eval_defs)

text \<open>
  Claim C6. In a line that matches, the sender holds no colon and is followed at once
  by a colon, then whitespace, then the message up to the end of the line (or up to a final
  newline), and only whitespace stands between the other parts (first conjunct).
  Conversely every line of the header shape matches, whatever its message holds: with a
  sender \<open>sn\<close> that has no colon and does not start with whitespace, and a message \<open>m\<close>
  that has no newline and does not start with whitespace, the sender field is \<open>sn\<close> and
  the message field is the whole of \<open>m\<close>, colons included (second conjunct). So the
  boundary is the first colon after the start of the sender. The line of the scenario
  gives the sender \<^verbatim>\<open>Bob\<close> and the message \<^verbatim>\<open>Meeting at 10:30\<close> (third conjunct).
\<close>

theorem first_colon_is_boundary:
  "(header_match line = Some r \<longrightarrow>
      of_char CHR '':'' \<notin> set (sender r)
      \<and> (\<exists>w1 w2 w3 w4 nl.
            line = date r @ py_str '','' @ w1 @ time r @ w2 @ py_str ''-'' @ w3
                     @ sender r @ py_str '':'' @ w4 @ message r @ nl
            \<and> list_all py_isspace w1 \<and> list_all py_isspace w2 \<and> list_all py_isspace w3
            \<and> list_all py_isspace w4 \<and> (nl = [] \<or> nl = [10])))
   \<and> (list_all py_isdecimal d1 \<and> 1 \<le> length d1 \<and> length d1 \<le> 2
        \<and> list_all py_isdecimal d2 \<and> 1 \<le> length d2 \<and> length d2 \<le> 2
        \<and> list_all py_isdecimal d3 \<and> 2 \<le> length d3 \<and> length d3 \<le> 4
        \<and> list_all py_isspace w1
        \<and> list_all py_isdecimal h \<and> 1 \<le> length h \<and> length h \<le> 2
        \<and> list_all py_isdecimal mm \<and> length mm = 2
        \<and> list_all py_isspace w2 \<and> length w2 \<le> 1 \<and> ap a
        \<and> list_all py_isspace w3 \<and> list_all py_isspace w4
        \<and> sn \<noteq> [] \<and> of_char CHR '':'' \<notin> set sn \<and> \<not> py_isspace (hd sn)
        \<and> list_all py_isspace w5
        \<and> list_all dot m \<and> (m = [] \<or> \<not> py_isspace (hd m)) \<longrightarrow>
      header_match
        (d1 @ py_str ''/'' @ d2 @ py_str ''/'' @ d3 @ py_str '','' @ w1
           @ h @ py_str '':'' @ mm @ w2 @ a # py_str ''m'' @ w3 @ py_str ''-'' @ w4
           @ sn @ py_str '':'' @ w5 @ m) =
      Some \<lparr>date = d1 @ py_str ''/'' @ d2 @ py_str ''/'' @ d3,
            time = h @ py_str '':'' @ mm @ w2 @ a # py_str ''m'', sender = sn, message = m\<rparr>)
   \<and> header_match (py_str ''1/1/24, 10:00 am - Bob: Meeting at 10:30'') =
       Some \<lparr>date = py_str ''1/1/24'', time = py_str ''10:00 am'', sender = py_str ''Bob'',
             message = py_str ''Meeting at 10:30''\<rparr>"
proof (intro conjI impI)
  assume h: "header_match line = Some r"
  from header_match_split(3)[OF h] show "of_char CHR '':'' \<notin> set (sender r)"
    by (auto simp: list_all_iff not_colon_def)
  from header_match_split(1)[OF h] show "\<exists>w1 w2 w3 w4 nl.
            line = date r @ py_str '','' @ w1 @ time r @ w2 @ py_str ''-'' @ w3
                     @ sender r @ py_str '':'' @ w4 @ message r @ nl
            \<and> list_all py_isspace w1 \<and> list_all py_isspace w2 \<and> list_all py_isspace w3
            \<and> list_all py_isspace w4 \<and> (nl = [] \<or> nl = [10])"
    by (simp add: py_str_def)
next
  assume a: "list_all py_isdecimal d1 \<and> 1 \<le> length d1 \<and> length d1 \<le> 2
        \<and> list_all py_isdecimal d2 \<and> 1 \<le> length d2 \<and> length d2 \<le> 2
        \<and> list_all py_isdecimal d3 \<and> 2 \<le> length d3 \<and> length d3 \<le> 4
        \<and> list_all py_isspace w1
        \<and> list_all py_isdecimal h \<and> 1 \<le> length h \<and> length h \<le> 2
        \<and> list_all py_isdecimal mm \<and> length mm = 2
        \<and> list_all py_isspace w2 \<and> length w2 \<le> 1 \<and> ap a
        \<and> list_all py_isspace w3 \<and> list_all py_isspace w4
        \<and> sn \<noteq> [] \<and> of_char CHR '':'' \<notin> set sn \<and> \<not> py_isspace (hd sn)
        \<and> list_all py_isspace w5
        \<and> list_all dot m \<and> (m = [] \<or> \<not> py_isspace (hd m))"
  then have nc: "list_all not_colon sn" by (auto simp: list_all_iff not_colon_def)
  from a have ap: "a = 97 \<or> a = 112" by (simp add: ap_def)
  from a nc ap have "header_match
      (d1 @ 47 # d2 @ 47 # d3 @ 44 # w1 @ h @ 58 # mm @ w2 @ a # 109 # w3 @ 45 # w4
         @ sn @ 58 # w5 @ m) =
      Some \<lparr>date = d1 @ 47 # d2 @ 47 # d3, time = h @ 58 # mm @ w2 @ [a, 109],
            sender = sn, message = m\<rparr>"
    by (intro header_match_complete) simp_all
  then show "header_match
        (d1 @ py_str ''/'' @ d2 @ py_str ''/'' @ d3 @ py_str '','' @ w1
           @ h @ py_str '':'' @ mm @ w2 @ a # py_str ''m'' @ w3 @ py_str ''-'' @ w4
           @ sn @ py_str '':'' @ w5 @ m) =
      Some \<lparr>date = d1 @ py_str ''/'' @ d2 @ py_str ''/'' @ d3,
            time = h @ py_str '':'' @ mm @ w2 @ a # py_str ''m'', sender = sn, message = m\<rparr>"
    by (simp add: py_str_def)
next
  show "header_match (py_str ''1/1/24, 10:00 am - Bob: Meeting at 10:30'') =
       Some \<lparr>date = py_str ''1/1/24'', time = py_str ''10:00 am'', sender = py_str ''Bob'',
             message = py_str ''Meeting at 10:30''\<rparr>"
    by (simp add: eval_defs)
qed

text \<open>
  The line of the scenario, matched and then put together from its parts: the sender holds
  no colon, the message holds one.
\<close>

theorem first_colon_is_boundary_witness:
  "header_match (py_str ''1/1/24, 10:00 am - Bob: Meeting at 10:30'') =
     Some \<lparr>date = py_str ''1/1/24'', time = py_str ''10:00 am'', sender = py_str ''Bob'',
             message = py_str ''Meeting at 10:30''\<rparr>
   \<and> of_char CHR '':'' \<notin> set (py_str ''Bob'')
   \<and> of_char CHR '':'' \<in> set (py_str ''Meeting at 10:30'')
   \<and> \<not> py_isspace (hd (py_str ''Bob''))
   \<and> list_all dot (py_str ''Meeting at 10:30'')
   \<and> \<not> py_isspace (hd (py_str ''Meeting at 10:30''))
   \<and> header_match
        (py_str ''1'' @ py_str ''/'' @ py_str ''1'' @ py_str ''/'' @ py_str ''24'' @ py_str '',''
           @ py_str '' '' @ py_str ''10'' @ py_str '':'' @ py_str ''00'' @ py_str '' ''
           @ of_char CHR ''a'' # py_str ''m'' @ py_str '' '' @ py_str ''-'' @ py_str '' ''
           @ py_str ''Bob'' @ py_str '':'' @ py_str '' '' @ py_str ''Meeting at 10:30'') =
     Some \<lparr>date = py_str ''1'' @ py_str ''/'' @ py_str ''1'' @ py_str ''/'' @ py_str ''24'',
           time = py_str ''10'' @ py_str '':'' @ py_str ''00'' @ py_str '' ''
                    @ of_char CHR ''a'' # py_str ''m'',
           sender = py_str ''Bob'', message = py_str ''Meeting at 10:30''\<rparr>"
proof -
  have h: "header_match (py_str ''1/1/24, 10:00 am - Bob: Meeting at 10:30'') =
     Some \<lparr>date = py_str ''1/1/24'', time = py_str ''10:00 am'', sender = py_str ''Bob'',
             message = py_str ''Meeting at 10:30''\<rparr>"
    by (simp add: eval_defs)
  have p: "list_all py_isdecimal (py_str ''1'') \<and> 1 \<le> length (py_str ''1'')
        \<and> length (py_str ''1'') \<le> 2
        \<and> list_all py_isdecimal (py_str ''1'') \<and> 1 \<le> length (py_str ''1'')
        \<and> length (py_str ''1'') \<le> 2
        \<and> list_all py_isdecimal (py_str ''24'') \<and> 2 \<le> length (py_str ''24'')
        \<and> length (py_str ''24'') \<le> 4
        \<and> list_all py_isspace (py_str '' '')
        \<and> list_all py_isdecimal (py_str ''10'') \<and> 1 \<le> length (py_str ''10'')
        \<and> length (py_str ''10'') \<le> 2
        \<and> list_all py_isdecimal (py_str ''00'') \<and> length (py_str ''00'') = 2
        \<and> list_all py_isspace (py_str '' '') \<and> length (py_str '' '') \<le> 1
        \<and> ap (of_char CHR ''a'')
        \<and> list_all py_isspace (py_str '' '') \<and> list_all py_isspace (py_str '' '')
        \<and> py_str ''Bob'' \<noteq> [] \<and> of_char CHR '':'' \<notin> set (py_str ''Bob'')
        \<and> \<not> py_isspace (hd (py_str ''Bob''))
        \<and> list_all py_isspace (py_str '' '')
        \<and> list_all dot (py_str ''Meeting at 10:30'')
        \<and> (py_str ''Meeting at 10:30'' = [] \<or> \<not> py_isspace (hd (py_str ''Meeting at 10:30'')))"
    by (simp add: py_str_def class_defs)
  note w = first_colon_is_boundary[of "py_str ''1/1/24, 10:00 am - Bob: Meeting at 10:30''" "\<lparr>date = py_str ''1/1/24'', time = py_str ''10:00 am'', sender = py_str ''Bob'',              message = py_str ''Meeting at 10:30''\<rparr>"
      "py_str ''1''" "py_str ''1''" "py_str ''24''" "py_str '' ''" "py_str ''10''" "py_str ''00''"
      "py_str '' ''" "of_char CHR ''a''" "py_str '' ''" "py_str '' ''" "py_str ''Bob''"
      "py_str '' ''" "py_str ''Meeting at 10:30''"]
  from w[THEN conjunct1, THEN mp, OF h]
  have f1: "of_char CHR '':'' \<notin> set (py_str ''Bob'')" by simp
  have f2: "of_char CHR '':'' \<in> set (py_str ''Meeting at 10:30'')"
    by (simp add: py_str_def)
  have f3: "\<not> py_isspace (hd (py_str ''Bob''))"
    and f4: "list_all dot (py_str ''Meeting at 10:30'')"
    and f5: "\<not> py_isspace (hd (py_str ''Meeting at 10:30''))"
    by (simp_all add: py_str_def class_defs)
  from h f1 f2 f3 f4 f5 w[THEN conjunct2, THEN conjunct1, THEN mp, OF p]
  show ?thesis by (intro conjI)
qed




text \<open>
  Claim C9. A line that does not match the header pattern and arrives while
  \<^verbatim>\<open>messages\<close> is still empty leaves it empty, and the result of the whole loop is the
  one the input without that line gives: nothing of the line is kept.
\<close>

theorem leading_noise_discarded:
  assumes "parse_messages ls = Inr []" and "clean_line l = Str s" and "header_match s = None"
  shows "parse_messages (ls @ [l]) = Inr []
         \<and> parse_messages (ls @ l # rest) = parse_messages (ls @ rest)"
  using assms by (simp add: parse_messages_def parse_loop_append)

text \<open>
  Two banner lines before the first header line.
\<close>

theorem leading_noise_discarded_witness:
  "parse_messages [Str (py_str ''Messages are end-to-end encrypted.'')] = Inr []
   \<and> clean_line (Str (py_str ''Bob created group: study'')) = Str (py_str ''Bob created group: study'')
   \<and> header_match (py_str ''Bob created group: study'') = None
   \<and> parse_messages ([Str (py_str ''Messages are end-to-end encrypted.'')]
         @ [Str (py_str ''Bob created group: study'')]) = Inr []
   \<and> parse_messages ([Str (py_str ''Messages are end-to-end encrypted.'')]
         @ Str (py_str ''Bob created group: study'')
         # [Str (py_str ''1/1/24, 10:00 am - Bob: Hello'')]) =
     parse_messages ([Str (py_str ''Messages are end-to-end encrypted.'')]
         @ [Str (py_str ''1/1/24, 10:00 am - Bob: Hello'')])"
proof -
  have h1: "parse_messages [Str (py_str ''Messages are end-to-end encrypted.'')] = Inr []"
    by (simp add: parse_messages_def eval_defs)
  have h2: "clean_line (Str (py_str ''Bob created group: study'')) = Str (py_str ''Bob created group: study'')"
    by (simp add: eval_defs)
  have h3: "header_match (py_str ''Bob created group: study'') = None"
    by (simp add: eval_defs)
  from leading_noise_discarded[OF h1 h2 h3, of "[Str (py_str ''1/1/24, 10:00 am - Bob: Hello'')]"]
    h1 h2 h3
  show ?thesis by simp
qed

text \<open>
  Claim C10. A line of whitespace only (given as \<^verbatim>\<open>str\<close>, or as \<^verbatim>\<open>bytes\<close> that
  decode to whitespace) that arrives when \<^verbatim>\<open>messages\<close> is not empty is a continuation
  with empty text: the message of the last entry grows by exactly one space.
\<close>

theorem blank_line_appends_space:
  assumes "parse_messages ls = Inr ms" and "ms \<noteq> []"
    and "l = Str s \<or> (l = Bytes b \<and> decode_utf8 b = Some s)"
    and "list_all py_isspace s"
  shows "parse_messages (ls @ [l]) =
           Inr (butlast ms @ [(last ms)\<lparr>message := message (last ms) @ py_str '' ''\<rparr>])"
proof -
  from assms(3,4) have "clean_line l = Str []" by (auto simp: strip_blank)
  then have "loop_body ms l = Inr (butlast ms @ [(last ms)\<lparr>message := message (last ms) @ 32 # []\<rparr>])"
    using assms(2) by (intro loop_body_continuation) (simp_all add: header_match_Nil)
  with assms(1) show ?thesis
    by (simp add: parse_messages_def parse_loop_append py_str_def)
qed

text \<open>
  A line of two spaces after the header line of Bob.
\<close>

theorem blank_line_appends_space_witness:
  "parse_messages [Str (py_str ''1/1/24, 10:00 am - Bob: Hello'')] =
     Inr [\<lparr>date = py_str ''1/1/24'', time = py_str ''10:00 am'', sender = py_str ''Bob'',
           message = py_str ''Hello''\<rparr>]
   \<and> decode_utf8 ''  '' = Some (py_str ''  '')
   \<and> list_all py_isspace (py_str ''  '')
   \<and> parse_messages ([Str (py_str ''1/1/24, 10:00 am - Bob: Hello'')] @ [Bytes ''  '']) =
     Inr [\<lparr>date = py_str ''1/1/24'', time = py_str ''10:00 am'', sender = py_str ''Bob'',
           message = py_str ''Hello ''\<rparr>]"
proof -
  let ?bob = "\<lparr>date = py_str ''1/1/24'', time = py_str ''10:00 am'', sender = py_str ''Bob'',
           message = py_str ''Hello''\<rparr>"
  have h1: "parse_messages [Str (py_str ''1/1/24, 10:00 am - Bob: Hello'')] = Inr [?bob]"
    by (simp add: parse_messages_def eval_defs)
  have h2: "[?bob] \<noteq> []" by simp
  have h3: "Bytes ''  '' = Str (py_str ''  '')
            \<or> (Bytes ''  '' = Bytes ''  '' \<and> decode_utf8 ''  '' = Some (py_str ''  ''))"
    by (simp add: decode_utf8_def py_str_def)
  have h4: "list_all py_isspace (py_str ''  '')"
    by (simp add: py_str_def py_isspace_def)
  from blank_line_appends_space[OF h1 h2 h3 h4] h1 h3 h4 show ?thesis
    by (simp add: py_str_def)
qed

end
